theory Spec2Isabelle
  imports Complex_Main "HOL-Library.Word"
begin

section \<open>Dimensioned values (\<open>dimreal_t\<close>)\<close>

text \<open>
  The development follows the last revision of \<open>exactonator.cc\<close> (the one that
  declares \<open>err_t\<close>). The headers \<open>mpreal.h\<close> and \<open>phys/units\<close> are not part of the
  sources, so the two library types are modelled from the specification:
  \<^item> an \<open>mpreal\<close> magnitude is a real number. Rounding to the working precision,
    infinities and NaN are outside the model (a division by zero is HOL's \<open>0\<close>);
  \<^item> a \<open>quantity\<close> is a scale factor together with a vector of exponents over the
    seven base dimensions.
\<close>

subsection \<open>Error codes\<close>

datatype err_t =
    dimension_add | dimension_dim_exp | dimension_nonint_exp_dim_base
  | dimension_nonint_exp_neg_base
  | create_save_dir
  | redef_constant | redef_default_constant
  | hashed_none_expr
  | bad_thread_count

text \<open>
  \<open>ERR_EXIT\<close> ends the process with an error code; indexing a \<open>std::vector\<close> past its end
  is undefined behaviour. Both are outcomes of the model.
\<close>

datatype fault = Exit err_t | OutOfRange

subsection \<open>Units\<close>

text \<open>
  Modelled from the spec: \<open>phys::units::quantity\<close> is missing from the sources. The
  glossary calls a dimension a vector of exponents over the base physical quantities
  (length, mass, time, current, temperature, amount of substance, luminous intensity),
  and a unit a dimension with a scale. All of this subsection stands for that library:
  the dimensions with their product, quotient and power, and the units with
  \<open>same_dimension\<close>, \<open>*\<close>, \<open>/\<close> and \<open>nth_power\<close>; two units are equal when scale and
  dimension are.
\<close>

datatype dimension_t = Dim int int int int int int int

definition dimensionless_d :: dimension_t where
  "dimensionless_d = Dim 0 0 0 0 0 0 0"

fun dim_mul :: "dimension_t \<Rightarrow> dimension_t \<Rightarrow> dimension_t" where
  "dim_mul (Dim a b c d e f g) (Dim a' b' c' d' e' f' g') =
     Dim (a + a') (b + b') (c + c') (d + d') (e + e') (f + f') (g + g')"

fun dim_div :: "dimension_t \<Rightarrow> dimension_t \<Rightarrow> dimension_t" where
  "dim_div (Dim a b c d e f g) (Dim a' b' c' d' e' f' g') =
     Dim (a - a') (b - b') (c - c') (d - d') (e - e') (f - f') (g - g')"

fun dim_nth_power :: "dimension_t \<Rightarrow> int \<Rightarrow> dimension_t" where
  "dim_nth_power (Dim a b c d e f g) n =
     Dim (a * n) (b * n) (c * n) (d * n) (e * n) (f * n) (g * n)"

record quantity =
  factor :: real
  dimension :: dimension_t

text \<open>Modelled from the spec: \<open>quantity()\<close>, the dimensionless unit one.\<close>

definition quantity_default :: quantity where
  "quantity_default = \<lparr>factor = 1, dimension = dimensionless_d\<rparr>"

definition same_dimension :: "quantity \<Rightarrow> quantity \<Rightarrow> bool" where
  "same_dimension q r = (dimension q = dimension r)"

definition q_mul :: "quantity \<Rightarrow> quantity \<Rightarrow> quantity" where
  "q_mul q r = \<lparr>factor = factor q * factor r, dimension = dim_mul (dimension q) (dimension r)\<rparr>"

definition q_div :: "quantity \<Rightarrow> quantity \<Rightarrow> quantity" where
  "q_div q r = \<lparr>factor = factor q / factor r, dimension = dim_div (dimension q) (dimension r)\<rparr>"

definition nth_power :: "quantity \<Rightarrow> int \<Rightarrow> quantity" where
  "nth_power q n = \<lparr>factor = factor q powi n, dimension = dim_nth_power (dimension q) n\<rparr>"

subsection \<open>Magnitudes\<close>

text \<open>
  Modelled from the spec: the \<open>mpreal\<close> operations the program calls. \<open>isint\<close> tests for
  an integral value; \<open>mpfr_pow\<close> is the arbitrary-precision power (an integer power for
  an integral exponent); \<open>toLong\<close> truncates towards zero and saturates at the range
  of a 64-bit \<open>long\<close>.
\<close>

definition isint :: "real \<Rightarrow> bool" where
  "isint v = (of_int \<lfloor>v\<rfloor> = v)"

definition mpfr_pow :: "real \<Rightarrow> real \<Rightarrow> real" where
  "mpfr_pow x y = (if isint y then x powi \<lfloor>y\<rfloor> else x powr y)"

definition toLong :: "real \<Rightarrow> int" where
  "toLong v =
     (let t = (if 0 \<le> v then \<lfloor>v\<rfloor> else \<lceil>v\<rceil>)
      in if t > 9223372036854775807 then 9223372036854775807
         else if t < - 9223372036854775808 then - 9223372036854775808
         else t)"

text \<open>\<open>static_cast<int>\<close> of a \<open>long\<close> keeps the low 32 bits, read as two's complement.\<close>

definition static_cast_int :: "int \<Rightarrow> int" where
  "static_cast_int n = sint (word_of_int n :: 32 word)"

definition cost :: "real \<Rightarrow> real \<Rightarrow> real" where
  "cost a b = \<bar>a - b\<bar>"

subsection \<open>The arithmetic of \<open>dimreal_t\<close>\<close>

record dimreal_t =
  magnitude :: real
  unit_of :: quantity

text \<open>
  The fields \<open>value\<close> and \<open>unit\<close> are called \<open>magnitude\<close> and \<open>unit_of\<close> here.
  \<open>dimreal v\<close> is \<open>dimreal_t{v}\<close>: the unit is value-initialised.
\<close>

definition dimreal :: "real \<Rightarrow> dimreal_t" where
  "dimreal v = \<lparr>magnitude = v, unit_of = quantity_default\<rparr>"

definition dr_add :: "dimreal_t \<Rightarrow> dimreal_t \<Rightarrow> fault + dimreal_t" where
  "dr_add a other =
     (if \<not> same_dimension (unit_of a) (unit_of other) then Inl (Exit dimension_add)
      else Inr \<lparr>magnitude = magnitude a + magnitude other, unit_of = unit_of a\<rparr>)"

definition dr_sub :: "dimreal_t \<Rightarrow> dimreal_t \<Rightarrow> fault + dimreal_t" where
  "dr_sub a other =
     (if \<not> same_dimension (unit_of a) (unit_of other) then Inl (Exit dimension_add)
      else Inr \<lparr>magnitude = magnitude a - magnitude other, unit_of = unit_of a\<rparr>)"

definition dr_neg :: "dimreal_t \<Rightarrow> dimreal_t" where
  "dr_neg a = \<lparr>magnitude = - magnitude a, unit_of = unit_of a\<rparr>"

definition dr_mul :: "dimreal_t \<Rightarrow> dimreal_t \<Rightarrow> dimreal_t" where
  "dr_mul a other =
     \<lparr>magnitude = magnitude a * magnitude other, unit_of = q_mul (unit_of a) (unit_of other)\<rparr>"

definition dr_div :: "dimreal_t \<Rightarrow> dimreal_t \<Rightarrow> dimreal_t" where
  "dr_div a other =
     \<lparr>magnitude = magnitude a / magnitude other, unit_of = q_div (unit_of a) (unit_of other)\<rparr>"

definition pow :: "dimreal_t \<Rightarrow> dimreal_t \<Rightarrow> fault + dimreal_t" where
  "pow a other =
     (if dimension (unit_of other) \<noteq> dimensionless_d then Inl (Exit dimension_dim_exp)
      else if \<not> isint (magnitude other) \<and> \<not> same_dimension (unit_of a) quantity_default
        then Inl (Exit dimension_nonint_exp_dim_base)
      else if dimension (unit_of a) = dimensionless_d then
        (if magnitude a < 0 \<and> \<not> isint (magnitude other)
           then Inl (Exit dimension_nonint_exp_neg_base)
         else Inr \<lparr>magnitude = mpfr_pow (magnitude a) (magnitude other), unit_of = unit_of a\<rparr>)
      else Inr \<lparr>magnitude = mpfr_pow (magnitude a) (magnitude other),
                unit_of = nth_power (unit_of a) (static_cast_int (toLong (magnitude other)))\<rparr>)"

section \<open>Expression nodes (\<open>expr_t\<close>)\<close>

datatype etype_t =
    litexpr | cnstexpr
  | addexpr | subexpr
  | mulexpr | divexpr
  | powexpr
  | none

text \<open>
  The dynamic class of a node, with the fields the class adds to \<open>expr_t\<close>. The classes
  \<open>funcexpr_t\<close> and \<open>unexpr_t\<close> are never instantiated and are left out.
\<close>

datatype eclass =
    Lit dimreal_t
  | Cnst string dimreal_t
  | Add | Sub | Mul | Div | Pow

text \<open>
  A node owns its children (\<open>exprs\<close>); \<open>parents\<close> is the second vector of \<open>expr_t\<close>,
  which every constructor the program calls leaves empty. Nodes are modelled by value:
  the generator never changes a node once another node refers to it.
\<close>

datatype expr =
  Expr (cls: eclass) (exprs: "expr list") (parents: "expr list") (dirty: bool) (cache: dimreal_t)

fun etype :: "expr \<Rightarrow> etype_t" where
  "etype (Expr (Lit v) es ps d c) = litexpr"
| "etype (Expr (Cnst n v) es ps d c) = cnstexpr"
| "etype (Expr Add es ps d c) = addexpr"
| "etype (Expr Sub es ps d c) = subexpr"
| "etype (Expr Mul es ps d c) = mulexpr"
| "etype (Expr Div es ps d c) = divexpr"
| "etype (Expr Pow es ps d c) = powexpr"

text \<open>The constructors: a fresh node is dirty and its cache is default-initialised.\<close>

definition litexpr_t :: "dimreal_t \<Rightarrow> expr" where
  "litexpr_t v = Expr (Lit v) [] [] True (dimreal 0)"

definition cnstexpr_t :: "dimreal_t \<Rightarrow> string \<Rightarrow> expr" where
  "cnstexpr_t v n = Expr (Cnst n v) [] [] True (dimreal 0)"

text \<open>\<open>binexpr_t\<close>, the base class of the operators, puts the two operands into \<open>exprs\<close>.\<close>

definition binexpr_t :: "eclass \<Rightarrow> expr \<Rightarrow> expr \<Rightarrow> expr" where
  "binexpr_t k a b = Expr k [a, b] [] True (dimreal 0)"

definition addexpr_t :: "expr \<Rightarrow> expr \<Rightarrow> expr" where
  "addexpr_t a b = binexpr_t Add a b"

definition subexpr_t :: "expr \<Rightarrow> expr \<Rightarrow> expr" where
  "subexpr_t a b = binexpr_t Sub a b"

definition mulexpr_t :: "expr \<Rightarrow> expr \<Rightarrow> expr" where
  "mulexpr_t a b = binexpr_t Mul a b"

definition divexpr_t :: "expr \<Rightarrow> expr \<Rightarrow> expr" where
  "divexpr_t a b = binexpr_t Div a b"

definition powexpr_t :: "expr \<Rightarrow> expr \<Rightarrow> expr" where
  "powexpr_t a b = binexpr_t Pow a b"

subsection \<open>Size\<close>

text \<open>
  \<open>size_expr\<close> is \<open>size()\<close>, which sums in \<open>std::uint32_t\<close>; \<open>nodes\<close> is the same count
  without the wrap-around.
\<close>

fun size_expr :: "expr \<Rightarrow> 32 word" where
  "size_expr (Expr k es ps d c) = foldl (\<lambda>sum e. sum + size_expr e) 1 es"

fun nodes :: "expr \<Rightarrow> nat" where
  "nodes (Expr k es ps d c) = Suc (sum_list (map nodes es))"

subsection \<open>Structural equality\<close>

text \<open>
  \<open>operator==\<close> walks \<open>exprs\<close> and then \<open>parents\<close> of the left node and reads the other
  node's vector at the same index, with no look at its length. \<open>eq_loop\<close> is one such
  loop, \<open>res\<close> the flag it carries; \<open>&&\<close> skips the comparison once the flag is false.
\<close>

fun expr_eq :: "expr \<Rightarrow> expr \<Rightarrow> fault + bool"
  and eq_loop :: "expr list \<Rightarrow> expr list \<Rightarrow> bool \<Rightarrow> fault + bool" where
  "expr_eq (Expr k es ps d c) other =
     (case eq_loop es (exprs other) True of
        Inl f \<Rightarrow> Inl f
      | Inr res \<Rightarrow> eq_loop ps (parents other) res)"
| "eq_loop [] ys res = Inr res"
| "eq_loop (x # xs) ys res =
     (if \<not> res then eq_loop xs (tl ys) res
      else (case ys of
              [] \<Rightarrow> Inl OutOfRange
            | y # ys' \<Rightarrow>
                (case expr_eq x y of
                   Inl f \<Rightarrow> Inl f
                 | Inr r \<Rightarrow> eq_loop xs ys' (res \<and> r))))"

subsection \<open>Evaluation with the cache\<close>

definition binop :: "eclass \<Rightarrow> dimreal_t \<Rightarrow> dimreal_t \<Rightarrow> fault + dimreal_t" where
  "binop k x y =
     (case k of
        Add \<Rightarrow> dr_add x y
      | Sub \<Rightarrow> dr_sub x y
      | Mul \<Rightarrow> Inr (dr_mul x y)
      | Div \<Rightarrow> Inr (dr_div x y)
      | Pow \<Rightarrow> pow x y
      | _ \<Rightarrow> Inr x)"

text \<open>
  \<open>load\<close> returns the value together with the node as the call leaves it: a dirty node
  is recomputed by \<open>rload\<close> (for an operator, from the loaded children \<open>exprs[0]\<close> and
  \<open>exprs[1]\<close>), cached and marked clean; a clean node answers from its cache. The
  left operand is loaded first; C++ leaves the order open, and it decides only which
  fault is met when both operands have one.
\<close>

fun load :: "expr \<Rightarrow> fault + (dimreal_t \<times> expr)" where
  "load (Expr k es ps d c) =
     (if \<not> d then Inr (c, Expr k es ps d c)
      else (case k of
              Lit v \<Rightarrow> Inr (v, Expr k es ps False v)
            | Cnst n v \<Rightarrow> Inr (v, Expr k es ps False v)
            | _ \<Rightarrow>
               (case es of
                  a # b # rest \<Rightarrow>
                    (case load a of
                       Inl f \<Rightarrow> Inl f
                     | Inr (x, a') \<Rightarrow>
                        (case load b of
                           Inl f \<Rightarrow> Inl f
                         | Inr (y, b') \<Rightarrow>
                            (case binop k x y of
                               Inl f \<Rightarrow> Inl f
                             | Inr v \<Rightarrow> Inr (v, Expr k (a' # b' # rest) ps False v))))
                | _ \<Rightarrow> Inl OutOfRange)))"

text \<open>\<open>evaluate\<close> is the value a call of \<open>load\<close> returns.\<close>

definition evaluate :: "expr \<Rightarrow> fault + dimreal_t" where
  "evaluate e = (case load e of Inl f \<Rightarrow> Inl f | Inr (v, e') \<Rightarrow> Inr v)"

section \<open>The simplifier\<close>

text \<open>\<open>operator==\<close> of \<open>dimreal_t\<close>: the magnitudes and the units are both equal.\<close>

definition dr_eq :: "dimreal_t \<Rightarrow> dimreal_t \<Rightarrow> bool" where
  "dr_eq a other = (magnitude a = magnitude other \<and> unit_of a = unit_of other)"

fun with_exprs :: "expr \<Rightarrow> expr list \<Rightarrow> expr" where
  "with_exprs (Expr k es ps d c) es' = Expr k es' ps d c"

text \<open>\<open>a->exprs[i]\<close>, and \<open>a->exprs[i]->load()\<close> with the node \<open>a\<close> as the call leaves it.\<close>

definition child_at :: "expr \<Rightarrow> nat \<Rightarrow> fault + expr" where
  "child_at a i = (if i < length (exprs a) then Inr (exprs a ! i) else Inl OutOfRange)"

definition load_child :: "expr \<Rightarrow> nat \<Rightarrow> fault + (dimreal_t \<times> expr)" where
  "load_child a i =
     (case child_at a i of
        Inl f \<Rightarrow> Inl f
      | Inr e \<Rightarrow>
         (case load e of
            Inl f \<Rightarrow> Inl f
          | Inr (v, e') \<Rightarrow> Inr (v, with_exprs a ((exprs a)[i := e']))))"

text \<open>
  One rewrite rule of the shape
  \<^verbatim>\<open>if (a->exprs[i]->load() == dimreal_t{c}) { a = std::move(a->exprs[j]); goto redo; }\<close>
  The answer is \<open>Inr r\<close> when the rule fires and \<open>a\<close> becomes the child \<open>r\<close>, and
  \<open>Inl a'\<close> when it does not, \<open>a'\<close> being \<open>a\<close> with the loaded child.
\<close>

definition try_rule :: "expr \<Rightarrow> nat \<Rightarrow> real \<Rightarrow> nat \<Rightarrow> fault + (expr + expr)" where
  "try_rule a i c j =
     (case load_child a i of
        Inl f \<Rightarrow> Inl f
      | Inr (v, a') \<Rightarrow>
         if dr_eq v (dimreal c)
         then (case child_at a' j of Inl f \<Rightarrow> Inl f | Inr r \<Rightarrow> Inr (Inr r))
         else Inr (Inl a'))"

text \<open>
  The rule \<open>1 / (x / y)\<close>: when \<open>exprs[0]\<close> loads to one and \<open>exprs[1]\<close> is a quotient,
  the two children of that quotient are swapped in place and the quotient replaces
  \<open>a\<close>. Nothing else of the quotient node changes.
\<close>

definition invert_rule :: "expr \<Rightarrow> fault + (expr + expr)" where
  "invert_rule a =
     (case load_child a 0 of
        Inl f \<Rightarrow> Inl f
      | Inr (v, a') \<Rightarrow>
         if dr_eq v (dimreal 1)
         then (case child_at a' 1 of
                 Inl f \<Rightarrow> Inl f
               | Inr q \<Rightarrow>
                  if etype q = divexpr
                  then (case exprs q of
                          x # y # rest \<Rightarrow> Inr (Inr (with_exprs q (y # x # rest)))
                        | _ \<Rightarrow> Inl OutOfRange)
                  else Inr (Inl a'))
         else Inr (Inl a'))"

text \<open>
  What one pass over the rules does with a node: \<open>Return\<close> is the early return for a
  node of size at most one, \<open>Redo\<close> the jump to \<open>redo\<close> with the node that replaced
  \<open>a\<close>, and \<open>Children\<close> the fall through to the loop over the children.
\<close>

datatype step = Return expr | Redo expr | Children expr

definition or_else :: "fault + (expr + expr) \<Rightarrow> (expr \<Rightarrow> fault + step) \<Rightarrow> fault + step" where
  "or_else r k = (case r of Inl f \<Rightarrow> Inl f | Inr (Inr e) \<Rightarrow> Inr (Redo e) | Inr (Inl a') \<Rightarrow> k a')"

definition simplify_step :: "expr \<Rightarrow> fault + step" where
  "simplify_step a =
     (if size_expr a \<le> 1 then Inr (Return a)
      else if etype a = addexpr then
        or_else (try_rule a 0 0 1) (\<lambda>a.
        or_else (try_rule a 1 0 0) (\<lambda>a. Inr (Children a)))
      else if etype a = subexpr then
        or_else (try_rule a 1 0 0) (\<lambda>a. Inr (Children a))
      else if etype a = mulexpr then
        or_else (try_rule a 0 1 1) (\<lambda>a.
        or_else (try_rule a 1 1 0) (\<lambda>a. Inr (Children a)))
      else if etype a = divexpr then
        or_else (try_rule a 1 1 0) (\<lambda>a.
        or_else (invert_rule a) (\<lambda>a. Inr (Children a)))
      else Inr (Children a))"

lemma load_nodes: "load e = Inr (v, e') \<Longrightarrow> nodes e' = nodes e"
proof (induction e arbitrary: v e')
  case (Expr k es ps d c)
  have IH: "\<And>x v e'. x \<in> set es \<Longrightarrow> load x = Inr (v, e') \<Longrightarrow> nodes e' = nodes x"
    by (rule Expr.IH(1))
  show ?case
  proof (cases d)
    case False
    with Expr.prems show ?thesis by auto
  next
    case True
    then show ?thesis
      using Expr.prems IH
      by (auto split: eclass.splits list.splits sum.splits prod.splits) metis+
  qed
qed

lemma nodes_with_exprs: "nodes (with_exprs a es) = Suc (sum_list (map nodes es))"
  by (cases a) simp

lemma nodes_exprs: "nodes a = Suc (sum_list (map nodes (exprs a)))"
  by (cases a) simp

lemma child_at_nodes: "child_at a i = Inr e \<Longrightarrow> nodes e < nodes a"
proof -
  assume "child_at a i = Inr e"
  then have "e \<in> set (exprs a)"
    by (auto simp: child_at_def split: if_splits)
  then have "nodes e \<le> sum_list (map nodes (exprs a))"
    by (simp add: member_le_sum_list)
  then show ?thesis
    by (simp add: nodes_exprs [of a])
qed

lemma sum_list_update_same:
  "i < length es \<Longrightarrow> nodes e' = nodes (es ! i)
   \<Longrightarrow> sum_list (map nodes (es[i := e'])) = sum_list (map nodes es)"
  by (simp add: map_update list_update_same_conv [THEN iffD2])

lemma load_child_nodes: "load_child a i = Inr (v, a') \<Longrightarrow> nodes a' = nodes a"
  by (auto simp: load_child_def child_at_def nodes_with_exprs nodes_exprs [of a]
      sum_list_update_same
      split: if_splits sum.splits dest!: load_nodes)

lemma try_rule_nodes:
  "try_rule a i c j = Inr (Inr r) \<Longrightarrow> nodes r < nodes a"
  "try_rule a i c j = Inr (Inl a') \<Longrightarrow> nodes a' = nodes a"
  by (auto simp: try_rule_def split: sum.splits if_splits
      dest!: load_child_nodes child_at_nodes)

lemma nodes_swap:
  "exprs q = x # y # rest \<Longrightarrow> nodes (with_exprs q (y # x # rest)) = nodes q"
  by (simp add: nodes_with_exprs nodes_exprs [of q])

lemma invert_rule_nodes:
  "invert_rule a = Inr (Inr r) \<Longrightarrow> nodes r < nodes a"
  "invert_rule a = Inr (Inl a') \<Longrightarrow> nodes a' = nodes a"
  by (auto simp: invert_rule_def nodes_swap split: sum.splits if_splits list.splits
      dest!: load_child_nodes child_at_nodes)

lemma or_else_cases:
  assumes "or_else r k = Inr s"
  obtains e where "r = Inr (Inr e)" "s = Redo e"
  | a' where "r = Inr (Inl a')" "k a' = Inr s"
  using assms by (auto simp: or_else_def split: sum.splits)

lemma simplify_step_Redo: "simplify_step a = Inr (Redo r) \<Longrightarrow> nodes r < nodes a"
  unfolding simplify_step_def
  by (auto split: if_splits elim!: or_else_cases
      dest!: try_rule_nodes invert_rule_nodes)

lemma simplify_step_Children: "simplify_step a = Inr (Children a') \<Longrightarrow> nodes a' = nodes a"
  unfolding simplify_step_def
  by (auto split: if_splits elim!: or_else_cases
      dest!: try_rule_nodes invert_rule_nodes)

text \<open>
  \<open>simplify\<close> returns the node the reference \<open>a\<close> holds when the call returns;
  \<open>simplify_all\<close> is the loop over the children.
\<close>

function simplify :: "expr \<Rightarrow> fault + expr"
  and simplify_all :: "expr list \<Rightarrow> fault + expr list" where
  "simplify a =
     (case simplify_step a of
        Inl f \<Rightarrow> Inl f
      | Inr (Return a') \<Rightarrow> Inr a'
      | Inr (Redo r) \<Rightarrow> simplify r
      | Inr (Children a') \<Rightarrow>
         (case simplify_all (exprs a') of
            Inl f \<Rightarrow> Inl f
          | Inr es \<Rightarrow> Inr (with_exprs a' es)))"
| "simplify_all [] = Inr []"
| "simplify_all (e # es) =
     (case simplify e of
        Inl f \<Rightarrow> Inl f
      | Inr e' \<Rightarrow>
         (case simplify_all es of
            Inl f \<Rightarrow> Inl f
          | Inr es' \<Rightarrow> Inr (e' # es')))"
  by pat_completeness auto
termination
  apply (relation "measure (\<lambda>x. case x of Inl a \<Rightarrow> 2 * nodes a
                                      | Inr es \<Rightarrow> Suc (2 * sum_list (map nodes es)))")
  apply (auto dest!: simplify_step_Redo simplify_step_Children simp: nodes_exprs)
  done

declare simplify.simps [simp del]

section \<open>The candidate generator\<close>

record cnst_t =
  cvalue :: dimreal_t
  cname :: string
  is_default :: bool

text \<open>
  The fields \<open>value\<close> and \<open>name\<close> of \<open>cnst_t\<close> are called \<open>cvalue\<close> and \<open>cname\<close> here.
  \<open>cnstexpr_c\<close> is \<open>cnstexpr_t(cnst_t constant)\<close>, the second constructor of the class.
\<close>

definition cnstexpr_c :: "cnst_t \<Rightarrow> expr" where
  "cnstexpr_c constant = cnstexpr_t (cvalue constant) (cname constant)"

text \<open>
  The globals the search reads. The two bounds are \<open>std::int32_t\<close>: \<open>sint\<close> reads them,
  and the comparison with the \<open>std::uint32_t\<close> counter \<open>cursize\<close> is unsigned.
\<close>

record config =
  target :: dimreal_t
  constants :: "cnst_t list"
  max_expr_size :: "32 word"
  max_int_constants :: "32 word"

type_synonym results = "(real \<times> expr) list"

text \<open>
  A run of the search appends to \<open>all\<close> and returns, or ends in a fault; \<open>None\<close> is a
  run that has not returned within the recursion depth it was given.
\<close>

type_synonym outcome = "(fault + results) option"

text \<open>
  The body of \<open>recurse\<close> calls \<open>test_expr\<close> on one candidate after the other. The
  guards read only \<open>b->load()\<close> (here \<open>bv\<close>), the constants and the target, none of
  which a call of \<open>test_expr\<close> changes, so the candidates are listed first, in the order
  of the calls. \<open>cnst_candidates\<close> is one round of the loop over the constants.
\<close>

definition cnst_candidates :: "dimreal_t \<Rightarrow> expr \<Rightarrow> cnst_t \<Rightarrow> expr list" where
  "cnst_candidates bv b constant =
     (let c = cvalue constant; ce = cnstexpr_c constant in
      (if same_dimension (unit_of bv) quantity_default then
         (if same_dimension (unit_of c) quantity_default then
            (if magnitude c > 0 \<or> (magnitude c < 0 \<and> isint (magnitude bv))
               then [powexpr_t ce b] else [])
            @ (if magnitude bv > 0 \<or> (magnitude bv < 0 \<and> isint (magnitude c))
               then [powexpr_t b ce] else [])
            @ (if isint (magnitude c) then [powexpr_t b ce] else [])
          else [])
         @ (if isint (magnitude bv) then [powexpr_t ce b] else [])
       else [])
      @ [mulexpr_t b ce]
      @ (if magnitude c \<noteq> 0 then [divexpr_t b ce] else [])
      @ (if magnitude bv \<noteq> 0 then [divexpr_t ce b] else [])
      @ (if same_dimension (unit_of c) (unit_of bv)
           then [addexpr_t b ce, subexpr_t b ce, subexpr_t ce b] else []))"

text \<open>One round of the loop from \<open>2\<close>; \<open>bottom\<close> is loaded before it is tested.\<close>

definition lit2_candidates :: "config \<Rightarrow> dimreal_t \<Rightarrow> expr \<Rightarrow> real \<Rightarrow> expr list" where
  "lit2_candidates cfg bv b i =
     [mulexpr_t b (litexpr_t \<lparr>magnitude = i,
                     unit_of = q_div (unit_of (target cfg)) (unit_of bv)\<rparr>)]
     @ (case load (litexpr_t \<lparr>magnitude = i,
                     unit_of = q_div (unit_of bv) (unit_of (target cfg))\<rparr>) of
          Inl f \<Rightarrow> []
        | Inr (v, bottom) \<Rightarrow> if magnitude v \<noteq> 0 then [divexpr_t b bottom] else [])
     @ (if same_dimension (unit_of bv) quantity_default then
          (if isint (magnitude bv) then [powexpr_t (litexpr_t (dimreal i)) b] else [])
          @ [powexpr_t b (litexpr_t (dimreal i))]
        else [])"

text \<open>One round of the loop from \<open>1\<close>.\<close>

definition lit1_candidates :: "config \<Rightarrow> dimreal_t \<Rightarrow> expr \<Rightarrow> real \<Rightarrow> expr list" where
  "lit1_candidates cfg bv b i =
     (if magnitude bv \<noteq> 0
        then [divexpr_t (litexpr_t \<lparr>magnitude = i,
                           unit_of = q_mul (unit_of bv) (unit_of (target cfg))\<rparr>) b]
        else [])
     @ [addexpr_t b (litexpr_t \<lparr>magnitude = i, unit_of = unit_of bv\<rparr>),
        subexpr_t b (litexpr_t \<lparr>magnitude = i, unit_of = unit_of bv\<rparr>),
        subexpr_t (litexpr_t \<lparr>magnitude = i, unit_of = unit_of bv\<rparr>) b]"

text \<open>The values \<open>i\<close> of a loop \<open>for (mpreal i = lo; i <= max_int_constants; i++)\<close>.\<close>

definition int_constants :: "int \<Rightarrow> config \<Rightarrow> real list" where
  "int_constants lo cfg = map of_int [lo..sint (max_int_constants cfg)]"

definition candidates :: "config \<Rightarrow> dimreal_t \<Rightarrow> expr \<Rightarrow> expr list" where
  "candidates cfg bv b =
     concat (map (cnst_candidates bv b) (constants cfg))
     @ concat (map (lit2_candidates cfg bv b) (int_constants 2 cfg))
     @ concat (map (lit1_candidates cfg bv b) (int_constants 1 cfg))
     @ [subexpr_t (litexpr_t \<lparr>magnitude = 0, unit_of = unit_of bv\<rparr>) b]"

text \<open>
  \<open>test_expr\<close>, with the recursive call to \<open>recurse\<close> as the parameter \<open>rec\<close>: the
  candidate is loaded, recorded when its dimension is the target's, and searched from.
\<close>

definition test_expr ::
  "(expr \<Rightarrow> 32 word \<Rightarrow> results \<Rightarrow> outcome) \<Rightarrow> config \<Rightarrow> expr \<Rightarrow> 32 word \<Rightarrow> results \<Rightarrow> outcome" where
  "test_expr rec cfg a cursize all =
     (case load a of
        Inl f \<Rightarrow> Some (Inl f)
      | Inr (res, a') \<Rightarrow>
         rec a' (cursize + 1)
           (if same_dimension (unit_of res) (unit_of (target cfg))
            then all @ [(cost (magnitude res) (magnitude (target cfg)), a')]
            else all))"

text \<open>The calls of \<open>test_expr\<close> in sequence; a fault ends the run.\<close>

fun test_each ::
  "(expr \<Rightarrow> 32 word \<Rightarrow> results \<Rightarrow> outcome) \<Rightarrow> expr list \<Rightarrow> 32 word \<Rightarrow> results \<Rightarrow> outcome" where
  "test_each t [] cursize all = Some (Inr all)"
| "test_each t (a # as) cursize all =
     (case t a cursize all of
        None \<Rightarrow> None
      | Some (Inl f) \<Rightarrow> Some (Inl f)
      | Some (Inr all') \<Rightarrow> test_each t as cursize all')"

text \<open>
  \<open>recurse\<close>. The first argument bounds the depth of the recursion: nothing in the code
  does when \<open>max_expr_size\<close> is \<open>-1\<close>, which no \<open>cursize\<close> exceeds.
\<close>

primrec recurse :: "nat \<Rightarrow> config \<Rightarrow> expr \<Rightarrow> 32 word \<Rightarrow> results \<Rightarrow> outcome" where
  "recurse 0 cfg b cursize all = None"
| "recurse (Suc fuel) cfg b cursize all =
     (if cursize > max_expr_size cfg then Some (Inr all)
      else (case load b of
              Inl f \<Rightarrow> Some (Inl f)
            | Inr (bv, b') \<Rightarrow>
               test_each (test_expr (recurse fuel cfg) cfg) (candidates cfg bv b') cursize all))"

text \<open>The two loops of \<open>main\<close> that start the search: the constants, then the literals.\<close>

definition seeds :: "config \<Rightarrow> expr list" where
  "seeds cfg =
     map cnstexpr_c (constants cfg)
     @ map (\<lambda>i. litexpr_t \<lparr>magnitude = i, unit_of = unit_of (target cfg)\<rparr>) (int_constants 1 cfg)"

definition generate :: "nat \<Rightarrow> config \<Rightarrow> outcome" where
  "generate fuel cfg = test_each (test_expr (recurse fuel cfg) cfg) (seeds cfg) 1 []"

section \<open>The result selector\<close>

text \<open>\<open>std::find_if\<close>: the position of the first match, or the length (\<open>end()\<close>).\<close>

fun find_if :: "('a \<Rightarrow> bool) \<Rightarrow> 'a list \<Rightarrow> nat" where
  "find_if P [] = 0"
| "find_if P (x # xs) = (if P x then 0 else Suc (find_if P xs))"

text \<open>One round of the loop over \<open>all\<close> in \<open>main\<close>.\<close>

definition select_one :: "results \<Rightarrow> real \<times> expr \<Rightarrow> results" where
  "select_one selected a =
     (let pos = find_if (\<lambda>b. fst a = fst b) selected in
      if pos \<noteq> length selected then
        (if size_expr (snd (selected ! pos)) > size_expr (snd a) then selected[pos := a] else selected)
      else selected @ [a])"

definition select_all :: "results \<Rightarrow> results" where
  "select_all all = foldl select_one [] all"

text \<open>
  \<open>std::sort\<close> with the comparison of the errors, then the first 30 entries. The sort is
  modelled by a stable one; the selected errors are pairwise different, so the order
  is the only sorted one.
\<close>

definition ranked :: "results \<Rightarrow> results" where
  "ranked all = take 30 (sort_key fst (select_all all))"

subsection \<open>Display\<close>

text \<open>
  \<open>disp\<close>. The rendering of a value, \<open>dimreal_t::to_str\<close>, belongs to the two libraries
  and is the parameter \<open>to_str\<close>.
\<close>

fun op_name :: "eclass \<Rightarrow> string" where
  "op_name Add = ''+''"
| "op_name Sub = ''-''"
| "op_name Mul = ''*''"
| "op_name Div = ''/''"
| "op_name Pow = ''^''"
| "op_name k = []"

fun disp :: "(dimreal_t \<Rightarrow> string) \<Rightarrow> expr \<Rightarrow> fault + string" where
  "disp to_str (Expr k es ps d c) =
     (case k of
        Lit v \<Rightarrow> Inr (to_str v)
      | Cnst n v \<Rightarrow> Inr n
      | _ \<Rightarrow>
         (case es of
            a # b # rest \<Rightarrow>
              (case disp to_str a of
                 Inl f \<Rightarrow> Inl f
               | Inr x \<Rightarrow>
                  (case disp to_str b of
                     Inl f \<Rightarrow> Inl f
                   | Inr y \<Rightarrow> Inr (''('' @ x @ '' '' @ op_name k @ '' '' @ y @ '')'')))
          | _ \<Rightarrow> Inl OutOfRange))"

section \<open>The configuration and \<open>main\<close>\<close>

text \<open>\<open>split\<close> at the one-character delimiter (\<open>last = next + 1\<close>); \<open>cur\<close> is the token read so far.\<close>

fun split :: "char \<Rightarrow> string \<Rightarrow> string \<Rightarrow> string list" where
  "split delim cur [] = (if cur = [] then [] else [cur])"
| "split delim cur (c # cs) =
     (if c = delim then cur # split delim [] cs else split delim (cur @ [c]) cs)"



subsection \<open>The command line and the numbers read\<close>







subsection \<open>\<open>main\<close>\<close>



section \<open>Vocabulary of the properties\<close>

text \<open>
  The precondition of an operator on two values: equal dimensions for a sum or a
  difference, a divisor other than zero for a quotient, and for a power a dimensionless
  exponent that is integral unless the base is dimensionless and not negative.
\<close>

definition op_legal :: "eclass \<Rightarrow> dimreal_t \<Rightarrow> dimreal_t \<Rightarrow> bool" where
  "op_legal k x y =
     (case k of
        Add \<Rightarrow> same_dimension (unit_of x) (unit_of y)
      | Sub \<Rightarrow> same_dimension (unit_of x) (unit_of y)
      | Mul \<Rightarrow> True
      | Div \<Rightarrow> magnitude y \<noteq> 0
      | Pow \<Rightarrow> dimension (unit_of y) = dimensionless_d
               \<and> (isint (magnitude y)
                  \<or> (dimension (unit_of x) = dimensionless_d \<and> 0 \<le> magnitude x))
      | _ \<Rightarrow> False)"

text \<open>
  \<open>legal bv b a\<close>: the expression \<open>a\<close> applies an operator to the seed \<open>b\<close>, of value
  \<open>bv\<close>, and a leaf, in either order, and the two values meet its precondition.
\<close>

definition legal :: "dimreal_t \<Rightarrow> expr \<Rightarrow> expr \<Rightarrow> bool" where
  "legal bv b a =
     (\<exists>k l lv l'. load l = Inr (lv, l') \<and> nodes l' = 1 \<and> \<not> dirty l' \<and>
        (a = binexpr_t k b l \<and> op_legal k bv lv
         \<or> a = binexpr_t k l b \<and> op_legal k lv bv))"

text \<open>
  \<open>covers sel x\<close>: the selection holds an entry with the error of the result \<open>x\<close> and
  an expression no larger than that of \<open>x\<close>.
\<close>

definition covers :: "results \<Rightarrow> real \<times> expr \<Rightarrow> bool" where
  "covers sel x = (\<exists>y \<in> set sel. fst y = fst x \<and> size_expr (snd y) \<le> size_expr (snd x))"


text \<open>A literal of a dimensionless value after \<open>load\<close>.\<close>

definition loaded_lit :: "real \<Rightarrow> expr" where
  "loaded_lit v = Expr (Lit (dimreal v)) [] [] False (dimreal v)"

text \<open>
  The second end-to-end example of the specification: no named constants, the
  dimensionless target \<open>4\<close>, integer literals up to \<open>4\<close>, and the size bound \<open>N\<close>.
\<close>

definition example2 :: "32 word \<Rightarrow> config" where
  "example2 N =
     \<lparr>target = dimreal 4, constants = [], max_expr_size = N, max_int_constants = 4\<rparr>"


section \<open>Properties of the dimensioned values\<close>

lemma isint_of_int: "isint (of_int n)"
  by (simp add: isint_def)

lemma static_cast_int_id:
  "- 2147483648 \<le> n \<Longrightarrow> n < 2147483648 \<Longrightarrow> static_cast_int n = n"
  unfolding static_cast_int_def by (simp add: int_word_sint)

lemma toLong_of_int:
  "- 9223372036854775808 \<le> n \<Longrightarrow> n \<le> 9223372036854775807 \<Longrightarrow> toLong (of_int n) = n"
  by (simp add: toLong_def Let_def)

lemma exponent_cast:
  assumes "- 2147483648 \<le> n" "n < 2147483648"
  shows "static_cast_int (toLong (of_int n)) = n"
proof -
  have "toLong (of_int n) = n"
    using assms by (intro toLong_of_int) auto
  then show ?thesis
    using assms by (simp add: static_cast_int_id)
qed

text \<open>
  C7. \<open>operator+\<close> and \<open>operator-\<close> end with the error \<open>dimension_add\<close> exactly when the
  two units differ in dimension; no other fault is possible; and a result carries the
  unit of the left operand, hence the dimension both operands share.
\<close>

theorem add_sub_dimension:
  "(dr_add a b = Inl (Exit dimension_add) \<longleftrightarrow> \<not> same_dimension (unit_of a) (unit_of b))
   \<and> (dr_sub a b = Inl (Exit dimension_add) \<longleftrightarrow> \<not> same_dimension (unit_of a) (unit_of b))
   \<and> (\<forall>f. dr_add a b = Inl f \<longrightarrow> f = Exit dimension_add)
   \<and> (\<forall>f. dr_sub a b = Inl f \<longrightarrow> f = Exit dimension_add)
   \<and> (\<forall>r. dr_add a b = Inr r \<longrightarrow>
          same_dimension (unit_of a) (unit_of b) \<and> unit_of r = unit_of a
          \<and> dimension (unit_of r) = dimension (unit_of b))
   \<and> (\<forall>r. dr_sub a b = Inr r \<longrightarrow>
          same_dimension (unit_of a) (unit_of b) \<and> unit_of r = unit_of a
          \<and> dimension (unit_of r) = dimension (unit_of b))"
  by (auto simp: dr_add_def dr_sub_def same_dimension_def)

theorem add_sub_dimension_witness:
  "dr_add \<lparr>magnitude = 1, unit_of = \<lparr>factor = 1, dimension = Dim 1 0 0 0 0 0 0\<rparr>\<rparr>
          \<lparr>magnitude = 2, unit_of = \<lparr>factor = 1000, dimension = Dim 1 0 0 0 0 0 0\<rparr>\<rparr>
     = Inr \<lparr>magnitude = 3, unit_of = \<lparr>factor = 1, dimension = Dim 1 0 0 0 0 0 0\<rparr>\<rparr>
   \<and> dr_sub \<lparr>magnitude = 1, unit_of = \<lparr>factor = 1, dimension = Dim 1 0 0 0 0 0 0\<rparr>\<rparr>
          \<lparr>magnitude = 2, unit_of = \<lparr>factor = 1000, dimension = Dim 1 0 0 0 0 0 0\<rparr>\<rparr>
     = Inr \<lparr>magnitude = - 1, unit_of = \<lparr>factor = 1, dimension = Dim 1 0 0 0 0 0 0\<rparr>\<rparr>
   \<and> dr_add \<lparr>magnitude = 1, unit_of = \<lparr>factor = 1, dimension = Dim 1 0 0 0 0 0 0\<rparr>\<rparr>
          \<lparr>magnitude = 2, unit_of = \<lparr>factor = 1, dimension = Dim 0 0 1 0 0 0 0\<rparr>\<rparr>
     = Inl (Exit dimension_add)"
  using add_sub_dimension
    [of "\<lparr>magnitude = 1, unit_of = \<lparr>factor = 1, dimension = Dim 1 0 0 0 0 0 0\<rparr>\<rparr>"
        "\<lparr>magnitude = 2, unit_of = \<lparr>factor = 1, dimension = Dim 0 0 1 0 0 0 0\<rparr>\<rparr>"]
  by (simp add: dr_add_def dr_sub_def same_dimension_def)

text \<open>
  C3, as the code has it. \<open>pow\<close> ends with \<open>dimension_dim_exp\<close> when the exponent is not
  dimensionless; otherwise with \<open>dimension_nonint_exp_dim_base\<close> when the exponent is
  not integral and the base is not dimensionless; otherwise with
  \<open>dimension_nonint_exp_neg_base\<close> when the dimensionless base is negative and the
  exponent is not integral. In every other case, and in no other, it returns a value:
  a dimensionless one for a dimensionless base, and for a dimensioned base, whose
  exponent is then integral, one whose dimension is the base's raised to the exponent
  as \<open>static_cast<int>\<close> leaves it, which is the exponent \<open>n\<close> itself when \<open>n\<close> fits a
  32-bit \<open>int\<close>.
\<close>

theorem pow_outcomes:
  "(dimension (unit_of x) \<noteq> dimensionless_d \<longrightarrow> pow b x = Inl (Exit dimension_dim_exp))
 \<and> (dimension (unit_of x) = dimensionless_d \<and> \<not> isint (magnitude x)
      \<and> dimension (unit_of b) \<noteq> dimensionless_d
      \<longrightarrow> pow b x = Inl (Exit dimension_nonint_exp_dim_base))
 \<and> (dimension (unit_of x) = dimensionless_d \<and> dimension (unit_of b) = dimensionless_d
      \<and> magnitude b < 0 \<and> \<not> isint (magnitude x)
      \<longrightarrow> pow b x = Inl (Exit dimension_nonint_exp_neg_base))
 \<and> (dimension (unit_of x) = dimensionless_d \<and> dimension (unit_of b) = dimensionless_d
      \<and> (0 \<le> magnitude b \<or> isint (magnitude x))
      \<longrightarrow> (\<exists>r. pow b x = Inr r \<and> dimension (unit_of r) = dimensionless_d
               \<and> magnitude r = mpfr_pow (magnitude b) (magnitude x)))
 \<and> (dimension (unit_of x) = dimensionless_d \<and> dimension (unit_of b) \<noteq> dimensionless_d
      \<and> isint (magnitude x)
      \<longrightarrow> (\<exists>r. pow b x = Inr r
               \<and> dimension (unit_of r) =
                   dim_nth_power (dimension (unit_of b))
                     (static_cast_int (toLong (magnitude x)))
               \<and> magnitude r = mpfr_pow (magnitude b) (magnitude x)))
 \<and> (dimension (unit_of x) = dimensionless_d \<and> dimension (unit_of b) \<noteq> dimensionless_d
      \<and> magnitude x = of_int n \<and> - 2147483648 \<le> n \<and> n < 2147483648
      \<longrightarrow> (\<exists>r. pow b x = Inr r
               \<and> dimension (unit_of r) = dim_nth_power (dimension (unit_of b)) n
               \<and> magnitude r = mpfr_pow (magnitude b) (magnitude x)))
 \<and> ((\<exists>r. pow b x = Inr r) \<longleftrightarrow>
        dimension (unit_of x) = dimensionless_d
        \<and> (isint (magnitude x)
           \<or> (dimension (unit_of b) = dimensionless_d \<and> 0 \<le> magnitude b)))"
  by (auto simp: pow_def same_dimension_def quantity_default_def nth_power_def
      isint_of_int exponent_cast)

text \<open>The last case at three metres squared: the result is nine square metres.\<close>

theorem pow_outcomes_witness:
  "pow \<lparr>magnitude = 3, unit_of = \<lparr>factor = 1, dimension = Dim 1 0 0 0 0 0 0\<rparr>\<rparr> (dimreal 2)
     = Inr \<lparr>magnitude = 9, unit_of = \<lparr>factor = 1, dimension = Dim 2 0 0 0 0 0 0\<rparr>\<rparr>
   \<and> dim_nth_power (Dim 1 0 0 0 0 0 0) 2 = Dim 2 0 0 0 0 0 0"
  using pow_outcomes
    [of "dimreal 2" "\<lparr>magnitude = 3, unit_of = \<lparr>factor = 1, dimension = Dim 1 0 0 0 0 0 0\<rparr>\<rparr>" 2]
  by (simp add: pow_def isint_def dimreal_def quantity_default_def dimensionless_d_def
      same_dimension_def mpfr_pow_def nth_power_def toLong_def static_cast_int_def)

text \<open>
  C3 as stated fails for an integral exponent outside the range of \<open>int\<close>: one metre to
  the power \<open>2 ^ 32\<close> is evaluated with the exponent cast to \<open>0\<close> and comes out
  dimensionless, where the claim gives the dimension length to the \<open>2 ^ 32\<close>.
\<close>

theorem pow_int_cast_counterexample:
  "isint 4294967296
   \<and> pow \<lparr>magnitude = 1, unit_of = \<lparr>factor = 1, dimension = Dim 1 0 0 0 0 0 0\<rparr>\<rparr>
          (dimreal 4294967296)
       = Inr \<lparr>magnitude = 1, unit_of = \<lparr>factor = 1, dimension = Dim 0 0 0 0 0 0 0\<rparr>\<rparr>
   \<and> dim_nth_power (Dim 1 0 0 0 0 0 0) 4294967296 = Dim 4294967296 0 0 0 0 0 0"
  by (simp add: pow_def isint_def dimreal_def quantity_default_def dimensionless_d_def
      same_dimension_def mpfr_pow_def nth_power_def toLong_def static_cast_int_def)

section \<open>Properties of structural equality\<close>

text \<open>
  A comparison never answers \<open>false\<close>: it is \<open>true\<close>, or it has read past the end of a
  vector.
\<close>

lemma expr_eq_results:
  "expr_eq a b = Inr True \<or> expr_eq a b = Inl OutOfRange"
  "res \<Longrightarrow> eq_loop xs ys res = Inr True \<or> eq_loop xs ys res = Inl OutOfRange"
proof (induction a b and xs ys res rule: expr_eq_eq_loop.induct)
  case (1 k es ps d c other)
  have A: "eq_loop es (exprs other) True = Inr True
           \<or> eq_loop es (exprs other) True = Inl OutOfRange"
    by (rule "1.IH"(1)) simp
  show ?case
  proof (cases "eq_loop es (exprs other) True")
    case (Inl f)
    with A show ?thesis by simp
  next
    case (Inr r)
    with A have r: "r = True" by simp
    have "eq_loop ps (parents other) r = Inr True
          \<or> eq_loop ps (parents other) r = Inl OutOfRange"
      using Inr r by (intro "1.IH"(2)) simp_all
    with Inr show ?thesis by simp
  qed
next
  case (2 ys res)
  then show ?case by simp
next
  case (3 x xs ys res)
  note res = \<open>res\<close>
  show ?case
  proof (cases ys)
    case Nil
    then show ?thesis using res by simp
  next
    case (Cons y ys')
    have B: "expr_eq x y = Inr True \<or> expr_eq x y = Inl OutOfRange"
      using res Cons by (intro "3.IH"(2)) simp_all
    show ?thesis
    proof (cases "expr_eq x y")
      case (Inl f)
      with B Cons res show ?thesis by simp
    next
      case (Inr r)
      with B have r: "r = True" by simp
      have "eq_loop xs ys' (res \<and> r) = Inr True
            \<or> eq_loop xs ys' (res \<and> r) = Inl OutOfRange"
        using res Cons Inr r by (intro "3.IH"(3)) simp_all
      with Inr Cons res r show ?thesis by simp
    qed
  qed
qed

lemma eq_loop_short:
  "length ys < length xs \<Longrightarrow> eq_loop xs ys True = Inl OutOfRange"
proof (induction xs arbitrary: ys)
  case Nil
  then show ?case by simp
next
  case (Cons x xs)
  show ?case
  proof (cases ys)
    case Nil
    then show ?thesis by simp
  next
    case ys: (Cons y ys')
    with Cons.prems have "length ys' < length xs" by simp
    then have tail: "eq_loop xs ys' True = Inl OutOfRange"
      by (rule Cons.IH)
    have "expr_eq x y = Inr True \<or> expr_eq x y = Inl OutOfRange"
      by (rule expr_eq_results(1))
    then show ?thesis
    proof
      assume "expr_eq x y = Inr True"
      with tail ys show ?thesis by simp
    next
      assume "expr_eq x y = Inl OutOfRange"
      with ys show ?thesis by simp
    qed
  qed
qed

text \<open>
  C9. The answer of \<open>operator==\<close> does not depend on the class, the payload, the dirty
  flag or the cache of either node, only on the vectors; a node with no children and
  no parents compares equal to every node; and so any two leaves, literals or
  constants of any name and value, compare equal.
\<close>

theorem expr_eq_ignores_payload:
  "expr_eq (Expr k es ps d c) (Expr k' es' ps' d' c')
     = expr_eq (Expr j es ps e h) (Expr j' es' ps' e' h')
   \<and> expr_eq (Expr k [] [] d c) other = Inr True
   \<and> expr_eq (litexpr_t v) (litexpr_t w) = Inr True
   \<and> expr_eq (litexpr_t v) (cnstexpr_t w n) = Inr True
   \<and> expr_eq (cnstexpr_t v m) (litexpr_t w) = Inr True
   \<and> expr_eq (cnstexpr_t v m) (cnstexpr_t w n) = Inr True"
  by (simp add: litexpr_t_def cnstexpr_t_def split: sum.splits)

text \<open>
  C10. Comparing a node with a node that has fewer children reads the shorter vector
  past its end: the comparison of a sum with a leaf is such a call.
\<close>

theorem expr_eq_fewer_children:
  "length (exprs other) < length (exprs a) \<Longrightarrow> expr_eq a other = Inl OutOfRange"
  by (cases a) (simp add: eq_loop_short)

theorem expr_eq_fewer_children_witness:
  "length (exprs (litexpr_t (dimreal 3)))
     < length (exprs (addexpr_t (litexpr_t (dimreal 1)) (litexpr_t (dimreal 2))))
   \<and> expr_eq (addexpr_t (litexpr_t (dimreal 1)) (litexpr_t (dimreal 2))) (litexpr_t (dimreal 3))
       = Inl OutOfRange"
  using expr_eq_fewer_children
    [of "litexpr_t (dimreal 3)" "addexpr_t (litexpr_t (dimreal 1)) (litexpr_t (dimreal 2))"]
  by (simp add: litexpr_t_def addexpr_t_def binexpr_t_def)

section \<open>Properties of the simplifier\<close>

lemmas simplify_eval =
  simplify_step_def or_else_def try_rule_def invert_rule_def load_child_def child_at_def
  dr_eq_def dimreal_def quantity_default_def dimensionless_d_def
  binop_def dr_div_def q_div_def word_le_nat_alt

text \<open>
  C4. The rule for \<open>1 / (x / y)\<close> swaps the children of the inner quotient after that
  node has been loaded and leaves its dirty flag and cache as they are. For
  \<open>1 / (2 / 4)\<close>, of value \<open>2\<close>, the simplified node is the quotient of \<open>4\<close> and \<open>2\<close> with
  the clean cache \<open>1 / 2\<close>, and that is what evaluating it returns. The same holds
  when the expression has been evaluated before it is simplified.
\<close>

theorem simplify_stale_cache:
  "simplify (divexpr_t (litexpr_t (dimreal 1))
               (divexpr_t (litexpr_t (dimreal 2)) (litexpr_t (dimreal 4))))
     = Inr (Expr Div [loaded_lit 4, loaded_lit 2] [] False (dimreal (1 / 2)))
   \<and> evaluate (Expr Div [loaded_lit 4, loaded_lit 2] [] False (dimreal (1 / 2)))
     = Inr (dimreal (1 / 2))
   \<and> evaluate (divexpr_t (litexpr_t (dimreal 1))
               (divexpr_t (litexpr_t (dimreal 2)) (litexpr_t (dimreal 4))))
     = Inr (dimreal 2)
   \<and> load (divexpr_t (litexpr_t (dimreal 1))
               (divexpr_t (litexpr_t (dimreal 2)) (litexpr_t (dimreal 4))))
     = Inr (dimreal 2,
            Expr Div [loaded_lit 1,
                      Expr Div [loaded_lit 2, loaded_lit 4] [] False (dimreal (1 / 2))]
              [] False (dimreal 2))
   \<and> simplify (Expr Div [loaded_lit 1,
                      Expr Div [loaded_lit 2, loaded_lit 4] [] False (dimreal (1 / 2))]
              [] False (dimreal 2))
     = Inr (Expr Div [loaded_lit 4, loaded_lit 2] [] False (dimreal (1 / 2)))"
  by (simp add: simplify.simps simplify_eval evaluate_def divexpr_t_def binexpr_t_def
      litexpr_t_def loaded_lit_def)

section \<open>Properties of the generator\<close>

lemma op_legal_binop: "op_legal k x y \<Longrightarrow> \<exists>v. binop k x y = Inr v"
  by (cases k)
     (auto simp: op_legal_def binop_def dr_add_def dr_sub_def pow_def same_dimension_def
        quantity_default_def)

lemma dimreal_sel [simp]:
  "magnitude (dimreal v) = v" "unit_of (dimreal v) = quantity_default"
  by (simp_all add: dimreal_def)

lemma load_clean: "\<not> dirty b \<Longrightarrow> load b = Inr (cache b, b)"
  by (cases b) simp

lemma load_litexpr_t: "load (litexpr_t v) = Inr (v, Expr (Lit v) [] [] False v)"
  by (simp add: litexpr_t_def)

lemma load_cnstexpr_c:
  "load (cnstexpr_c c) = Inr (cvalue c, Expr (Cnst (cname c) (cvalue c)) [] [] False (cvalue c))"
  by (simp add: cnstexpr_c_def cnstexpr_t_def)

lemma load_binexpr_t:
  assumes "op_legal k xv yv" "load x = Inr (xv, x')" "load y = Inr (yv, y')"
  shows "\<exists>v. load (binexpr_t k x y) = Inr (v, Expr k [x', y'] [] False v)"
proof -
  obtain v where "binop k xv yv = Inr v"
    using op_legal_binop [OF assms(1)] by blast
  with assms show ?thesis
    by (cases k) (simp_all add: op_legal_def binexpr_t_def)
qed

lemma legalI1:
  "load l = Inr (lv, l') \<Longrightarrow> nodes l' = 1 \<Longrightarrow> \<not> dirty l' \<Longrightarrow> op_legal k bv lv
   \<Longrightarrow> legal bv b (binexpr_t k b l)"
  unfolding legal_def by blast

lemma legalI2:
  "load l = Inr (lv, l') \<Longrightarrow> nodes l' = 1 \<Longrightarrow> \<not> dirty l' \<Longrightarrow> op_legal k lv bv
   \<Longrightarrow> legal bv b (binexpr_t k l b)"
  unfolding legal_def by blast

lemmas legal_cnst = legalI1 [OF load_cnstexpr_c] legalI2 [OF load_cnstexpr_c]
lemmas legal_lit = legalI1 [OF load_litexpr_t] legalI2 [OF load_litexpr_t]

lemma cnst_candidates_legal:
  "a \<in> set (cnst_candidates bv b c) \<Longrightarrow> legal bv b a"
  unfolding cnst_candidates_def Let_def powexpr_t_def mulexpr_t_def divexpr_t_def
    addexpr_t_def subexpr_t_def
  by (auto split: if_splits intro!: legal_cnst
      simp: op_legal_def same_dimension_def quantity_default_def)

lemma int_constants_isint: "i \<in> set (int_constants lo cfg) \<Longrightarrow> isint i"
  by (auto simp: int_constants_def isint_def)

lemma lit2_candidates_legal:
  "a \<in> set (lit2_candidates cfg bv b i) \<Longrightarrow> isint i \<Longrightarrow> legal bv b a"
  unfolding lit2_candidates_def powexpr_t_def mulexpr_t_def divexpr_t_def load_litexpr_t
  by (auto split: if_splits intro!: legal_lit legalI1 [OF load_clean]
      simp: op_legal_def same_dimension_def quantity_default_def)

lemma lit1_candidates_legal:
  "a \<in> set (lit1_candidates cfg bv b i) \<Longrightarrow> legal bv b a"
  unfolding lit1_candidates_def divexpr_t_def addexpr_t_def subexpr_t_def
  by (auto split: if_splits intro!: legal_lit
      simp: op_legal_def same_dimension_def quantity_default_def)

lemma candidates_legal:
  "a \<in> set (candidates cfg bv b) \<Longrightarrow> legal bv b a"
  unfolding candidates_def
  by (auto dest: cnst_candidates_legal lit2_candidates_legal lit1_candidates_legal
        int_constants_isint
      simp: subexpr_t_def op_legal_def same_dimension_def
      intro!: legal_lit)

lemma legal_load:
  assumes "legal (cache b) b a" "\<not> dirty b"
  shows "\<exists>v a'. load a = Inr (v, a') \<and> \<not> dirty a' \<and> nodes a' = nodes b + 2"
proof -
  from assms(1) obtain k l lv l' where l: "load l = Inr (lv, l')" "nodes l' = 1"
    and a: "a = binexpr_t k b l \<and> op_legal k (cache b) lv
            \<or> a = binexpr_t k l b \<and> op_legal k lv (cache b)"
    unfolding legal_def by blast
  have b: "load b = Inr (cache b, b)"
    using assms(2) by (rule load_clean)
  from a show ?thesis
  proof
    assume "a = binexpr_t k b l \<and> op_legal k (cache b) lv"
    then show ?thesis
      using load_binexpr_t [of k "cache b" lv b b l l'] b l by auto
  next
    assume "a = binexpr_t k l b \<and> op_legal k lv (cache b)"
    then show ?thesis
      using load_binexpr_t [of k lv "cache b" l l' b b] b l by auto
  qed
qed

lemma test_each_returns:
  assumes "\<And>a all. a \<in> set as \<Longrightarrow> \<exists>rs. t a cs all = Some (Inr rs)"
  shows "\<exists>rs. test_each t as cs all = Some (Inr rs)"
  using assms
proof (induction as arbitrary: all)
  case Nil
  then show ?case by simp
next
  case (Cons a as)
  obtain all' where "t a cs all = Some (Inr all')"
    using Cons.prems [of a all] by auto
  moreover have "\<exists>rs. test_each t as cs all' = Some (Inr rs)"
    using Cons.prems by (intro Cons.IH) auto
  ultimately show ?case by simp
qed

lemma test_each_no_fault:
  assumes "\<And>a all. a \<in> set as \<Longrightarrow> t a cs all \<noteq> Some (Inl f)"
  shows "test_each t as cs all \<noteq> Some (Inl f)"
  using assms
proof (induction as arbitrary: all)
  case Nil
  then show ?case by simp
next
  case (Cons a as)
  have "t a cs all \<noteq> Some (Inl f)"
    using Cons.prems by simp
  moreover have "\<And>all'. test_each t as cs all' \<noteq> Some (Inl f)"
    using Cons.prems by (intro Cons.IH) auto
  ultimately show ?case
    by (auto split: option.splits sum.splits)
qed

lemma test_each_invariant:
  assumes "\<And>a all rs. a \<in> set as \<Longrightarrow> P all \<Longrightarrow> t a cs all = Some (Inr rs) \<Longrightarrow> P rs"
    and "P all" and "test_each t as cs all = Some (Inr rs)"
  shows "P rs"
  using assms
proof (induction as arbitrary: all)
  case Nil
  then show ?case by simp
next
  case (Cons a as)
  from Cons.prems(3) obtain all' where a: "t a cs all = Some (Inr all')"
    and rest: "test_each t as cs all' = Some (Inr rs)"
    by (auto split: option.splits sum.splits)
  have "P all'"
    using Cons.prems(1) [of a all all'] Cons.prems(2) a by simp
  then show ?case
    using Cons.prems(1) rest by (intro Cons.IH [of all']) auto
qed

lemma cursize_Suc:
  assumes "\<not> max_expr_size cfg < cursize" "unat (max_expr_size cfg) < 2 ^ 32 - 1"
  shows "unat (cursize + 1) = Suc (unat cursize)"
proof -
  have "unat cursize \<le> unat (max_expr_size cfg)"
    using assms(1) by (simp add: word_le_nat_alt not_less)
  then have "unat cursize + unat (1 :: 32 word) < 2 ^ LENGTH(32)"
    using assms(2) by simp
  then have "unat (cursize + 1) = unat cursize + unat (1 :: 32 word)"
    by (simp only: unat_add_lem)
  then show ?thesis by simp
qed

lemma recurse_no_fault:
  "\<not> dirty b \<Longrightarrow> recurse fuel cfg b cursize all \<noteq> Some (Inl f)"
proof (induction fuel arbitrary: b cursize all)
  case 0
  show ?case by simp
next
  case (Suc fuel)
  have b: "load b = Inr (cache b, b)"
    using Suc.prems by (rule load_clean)
  have "test_each (test_expr (recurse fuel cfg) cfg) (candidates cfg (cache b) b) cursize all
          \<noteq> Some (Inl f)"
  proof (rule test_each_no_fault)
    fix a all'
    assume "a \<in> set (candidates cfg (cache b) b)"
    then obtain v a' where "load a = Inr (v, a')" "\<not> dirty a'"
      using legal_load [OF candidates_legal Suc.prems] by blast
    then show "test_expr (recurse fuel cfg) cfg a cursize all' \<noteq> Some (Inl f)"
      by (simp add: test_expr_def Suc.IH)
  qed
  with b show ?case by simp
qed

lemma recurse_returns:
  assumes "unat (max_expr_size cfg) < 2 ^ 32 - 1"
  shows "\<not> dirty b \<Longrightarrow> Suc (unat (max_expr_size cfg)) - unat cursize < fuel
         \<Longrightarrow> \<exists>rs. recurse fuel cfg b cursize all = Some (Inr rs)"
proof (induction fuel arbitrary: b cursize all)
  case 0
  then show ?case by simp
next
  case (Suc fuel)
  show ?case
  proof (cases "max_expr_size cfg < cursize")
    case True
    then show ?thesis by simp
  next
    case False
    have b: "load b = Inr (cache b, b)"
      using Suc.prems(1) by (rule load_clean)
    have le: "unat cursize \<le> unat (max_expr_size cfg)"
      using False by (simp add: word_le_nat_alt not_less)
    have next_size: "unat (cursize + 1) = Suc (unat cursize)"
      using False assms by (rule cursize_Suc)
    have "\<exists>rs. test_each (test_expr (recurse fuel cfg) cfg) (candidates cfg (cache b) b)
             cursize all = Some (Inr rs)"
    proof (rule test_each_returns)
      fix a all'
      assume "a \<in> set (candidates cfg (cache b) b)"
      then obtain v a' where a: "load a = Inr (v, a')" "\<not> dirty a'"
        using legal_load [OF candidates_legal Suc.prems(1)] by blast
      have "Suc (unat (max_expr_size cfg)) - unat (cursize + 1) < fuel"
        using Suc.prems(2) le next_size by simp
      then show "\<exists>rs. test_expr (recurse fuel cfg) cfg a cursize all' = Some (Inr rs)"
        using a by (simp add: test_expr_def Suc.IH)
    qed
    with b False show ?thesis by simp
  qed
qed

lemma recurse_sizes:
  assumes "unat (max_expr_size cfg) < 2 ^ 32 - 1"
  shows "\<not> dirty b
         \<Longrightarrow> \<not> max_expr_size cfg < cursize
              \<longrightarrow> nodes b + 2 * (Suc (unat (max_expr_size cfg)) - unat cursize) \<le> B
         \<Longrightarrow> \<forall>x \<in> set all. nodes (snd x) \<le> B
         \<Longrightarrow> recurse fuel cfg b cursize all = Some (Inr rs)
         \<Longrightarrow> \<forall>x \<in> set rs. nodes (snd x) \<le> B"
proof (induction fuel arbitrary: b cursize all rs)
  case 0
  then show ?case by simp
next
  case (Suc fuel)
  show ?case
  proof (cases "max_expr_size cfg < cursize")
    case True
    with Suc.prems show ?thesis by simp
  next
    case False
    have b: "load b = Inr (cache b, b)"
      using Suc.prems(1) by (rule load_clean)
    have le: "unat cursize \<le> unat (max_expr_size cfg)"
      using False by (simp add: word_le_nat_alt not_less)
    have next_size: "unat (cursize + 1) = Suc (unat cursize)"
      using False assms by (rule cursize_Suc)
    have bound: "nodes b + 2 * (Suc (unat (max_expr_size cfg)) - unat cursize) \<le> B"
      using Suc.prems(2) False by simp
    have run: "test_each (test_expr (recurse fuel cfg) cfg) (candidates cfg (cache b) b)
             cursize all = Some (Inr rs)"
      using Suc.prems(4) b False by simp
    show ?thesis
    proof (rule test_each_invariant [where P = "\<lambda>r. \<forall>x \<in> set r. nodes (snd x) \<le> B", OF _ _ run])
      show "\<forall>x \<in> set all. nodes (snd x) \<le> B"
        by (rule Suc.prems(3))
    next
      fix a all' rs'
      assume cand: "a \<in> set (candidates cfg (cache b) b)"
        and inv: "\<forall>x \<in> set all'. nodes (snd x) \<le> B"
        and t: "test_expr (recurse fuel cfg) cfg a cursize all' = Some (Inr rs')"
      obtain v a' where a: "load a = Inr (v, a')" "\<not> dirty a'" "nodes a' = nodes b + 2"
        using legal_load [OF candidates_legal [OF cand] Suc.prems(1)] by blast
      have a_le: "nodes a' \<le> B"
        using a(3) bound le by simp
      have next_bound: "\<not> max_expr_size cfg < cursize + 1
          \<longrightarrow> nodes a' + 2 * (Suc (unat (max_expr_size cfg)) - unat (cursize + 1)) \<le> B"
        using a(3) bound le next_size by (auto simp: word_le_nat_alt not_less)
      define all'' where "all'' =
        (if same_dimension (unit_of v) (unit_of (target cfg))
         then all' @ [(cost (magnitude v) (magnitude (target cfg)), a')] else all')"
      have inv'': "\<forall>x \<in> set all''. nodes (snd x) \<le> B"
        using inv a_le by (simp add: all''_def)
      have "recurse fuel cfg a' (cursize + 1) all'' = Some (Inr rs')"
        using t a(1) by (simp add: test_expr_def all''_def)
      then show "\<forall>x \<in> set rs'. nodes (snd x) \<le> B"
        using Suc.IH [OF a(2) next_bound inv''] by blast
    qed
  qed
qed

lemma seeds_load:
  "a \<in> set (seeds cfg) \<Longrightarrow> \<exists>v a'. load a = Inr (v, a') \<and> \<not> dirty a' \<and> nodes a' = 1"
  by (auto simp: seeds_def load_cnstexpr_c load_litexpr_t)

lemma generate_no_fault: "generate fuel cfg \<noteq> Some (Inl f)"
  unfolding generate_def
proof (rule test_each_no_fault)
  fix a all
  assume "a \<in> set (seeds cfg)"
  then obtain v a' where "load a = Inr (v, a')" "\<not> dirty a'"
    using seeds_load by blast
  then show "test_expr (recurse fuel cfg) cfg a 1 all \<noteq> Some (Inl f)"
    by (simp add: test_expr_def recurse_no_fault)
qed

lemma generate_returns:
  assumes "unat (max_expr_size cfg) < 2 ^ 32 - 1" "unat (max_expr_size cfg) < fuel"
  shows "\<exists>rs. generate fuel cfg = Some (Inr rs)"
  unfolding generate_def
proof (rule test_each_returns)
  fix a all
  assume "a \<in> set (seeds cfg)"
  then obtain v a' where a: "load a = Inr (v, a')" "\<not> dirty a'"
    using seeds_load by blast
  have "Suc (unat (max_expr_size cfg)) - unat (1 + 1 :: 32 word) < fuel"
    using assms(2) by simp
  then show "\<exists>rs. test_expr (recurse fuel cfg) cfg a 1 all = Some (Inr rs)"
    using a recurse_returns [OF assms(1) a(2)] by (simp add: test_expr_def)
qed

lemma generate_nodes:
  assumes "unat (max_expr_size cfg) < 2 ^ 32 - 1" "generate fuel cfg = Some (Inr rs)"
    and B: "1 \<le> B" "2 * unat (max_expr_size cfg) - 1 \<le> B"
  shows "\<forall>x \<in> set rs. nodes (snd x) \<le> B"
proof (rule test_each_invariant [where P = "\<lambda>r. \<forall>x \<in> set r. nodes (snd x) \<le> B",
      OF _ _ assms(2) [unfolded generate_def]])
  show "\<forall>x \<in> set []. nodes (snd x) \<le> B" by simp
next
  fix a all rs'
  assume seed: "a \<in> set (seeds cfg)"
    and inv: "\<forall>x \<in> set all. nodes (snd x) \<le> B"
    and t: "test_expr (recurse fuel cfg) cfg a 1 all = Some (Inr rs')"
  obtain v a' where a: "load a = Inr (v, a')" "\<not> dirty a'" "nodes a' = 1"
    using seeds_load [OF seed] by blast
  define all' where "all' =
    (if same_dimension (unit_of v) (unit_of (target cfg))
     then all @ [(cost (magnitude v) (magnitude (target cfg)), a')] else all)"
  have inv': "\<forall>x \<in> set all'. nodes (snd x) \<le> B"
    using inv a(3) B(1) by (simp add: all'_def)
  have run: "recurse fuel cfg a' (1 + 1) all' = Some (Inr rs')"
    using t a(1) by (simp add: test_expr_def all'_def)
  have "\<not> max_expr_size cfg < 1 + 1
        \<longrightarrow> nodes a' + 2 * (Suc (unat (max_expr_size cfg)) - unat (1 + 1 :: 32 word)) \<le> B"
    using a(3) B(2) by (auto simp: word_le_nat_alt not_less)
  then show "\<forall>x \<in> set rs'. nodes (snd x) \<le> B"
    using recurse_sizes [OF assms(1) a(2) _ inv' run] by blast
qed

lemma foldl_plus: "foldl (\<lambda>sum e. sum + f e) a es = a + sum_list (map f es)"
  for a :: "'a :: comm_monoid_add"
  by (induction es arbitrary: a) (simp_all add: add.assoc)

lemma nonneg_bound:
  fixes w :: "32 word"
  assumes "0 \<le> sint w"
  shows "sint w = uint w" "unat w < 2 ^ 32 - 1"
proof -
  have eq: "sint w = (uint w + 2147483648) mod 4294967296 - 2147483648"
    using int_word_sint [of "uint w", where 'a = 32] by simp
  have r: "0 \<le> uint w" "uint w < 4294967296"
    using uint_lt2p [of w] by simp_all
  have small: "uint w < 2147483648"
  proof (rule ccontr)
    assume "\<not> uint w < 2147483648"
    then have big: "2147483648 \<le> uint w" by simp
    have "uint w + 2147483648 = (uint w - 2147483648) + 4294967296"
      by simp
    then have "(uint w + 2147483648) mod 4294967296
            = ((uint w - 2147483648) + 4294967296) mod 4294967296"
      by (rule arg_cong)
    also have "\<dots> = (uint w - 2147483648) mod 4294967296"
      by (simp only: mod_add_self2)
    also have "\<dots> = uint w - 2147483648"
      using big r by (intro mod_pos_pos_trivial) simp_all
    finally have "sint w = uint w - 4294967296"
      using eq by simp
    with r assms show False by simp
  qed
  then have "(uint w + 2147483648) mod 4294967296 = uint w + 2147483648"
    using r by (intro mod_pos_pos_trivial) simp_all
  with eq show "sint w = uint w" by simp
  have "int (unat w) < int 4294967295"
    using small by simp
  then have "unat w < 4294967295"
    by (simp only: of_nat_less_iff)
  then show "unat w < 2 ^ 32 - 1" by simp
qed
lemma of_nat_sum_list_word:
  "(of_nat (sum_list (map f es)) :: 32 word) = sum_list (map (\<lambda>e. of_nat (f e)) es)"
  by (induction es) simp_all

lemma size_expr_nodes: "size_expr e = of_nat (nodes e)"
proof (induction e)
  case (Expr k es ps d c)
  have m: "map size_expr es = map (\<lambda>e. of_nat (nodes e)) es"
    by (rule map_cong [OF refl]) (rule Expr.IH(1))
  have "sum_list (map size_expr es) = (of_nat (sum_list (map nodes es)) :: 32 word)"
    by (simp only: m of_nat_sum_list_word)
  then show ?case
    by (simp add: foldl_plus)
qed

lemma unat_size_expr_le: "unat (size_expr e) \<le> nodes e"
  by (simp add: size_expr_nodes unat_of_nat)

text \<open>
  C5. For a bound \<open>max_expr_size = N\<close> that is not negative the search returns
  (a recursion depth of \<open>N + 1\<close> is enough), and whenever it returns, every recorded
  result has an expression of \<open>size()\<close> at most \<open>2 N + 1\<close>.
\<close>

theorem generator_size_bound:
  "0 \<le> sint (max_expr_size cfg) \<Longrightarrow>
     (\<exists>rs. generate (Suc (unat (max_expr_size cfg))) cfg = Some (Inr rs))
   \<and> (\<forall>fuel rs. generate fuel cfg = Some (Inr rs) \<longrightarrow>
         (\<forall>x \<in> set rs. uint (size_expr (snd x)) \<le> 2 * sint (max_expr_size cfg) + 1))"
proof (intro conjI allI impI ballI)
  assume N: "0 \<le> sint (max_expr_size cfg)"
  note n = nonneg_bound [OF N]
  show "\<exists>rs. generate (Suc (unat (max_expr_size cfg))) cfg = Some (Inr rs)"
    using n(2) by (intro generate_returns) simp_all
  fix fuel rs x
  assume "generate fuel cfg = Some (Inr rs)" and x: "x \<in> set rs"
  then have "\<forall>x \<in> set rs. nodes (snd x) \<le> 2 * unat (max_expr_size cfg) + 1"
    using n(2) by (intro generate_nodes [of cfg fuel]) simp_all
  with x have "nodes (snd x) \<le> 2 * unat (max_expr_size cfg) + 1" by blast
  with unat_size_expr_le [of "snd x"]
  have "unat (size_expr (snd x)) \<le> 2 * unat (max_expr_size cfg) + 1" by simp
  then have "int (unat (size_expr (snd x))) \<le> int (2 * unat (max_expr_size cfg) + 1)"
    by (simp only: of_nat_le_iff)
  then show "uint (size_expr (snd x)) \<le> 2 * sint (max_expr_size cfg) + 1"
    using n(1) by simp
qed

theorem generator_size_bound_witness:
  "0 \<le> sint (max_expr_size (example2 2))
   \<and> (\<exists>rs. generate 3 (example2 2) = Some (Inr rs)
          \<and> list_all (\<lambda>x. uint (size_expr (snd x)) \<le> 5) rs)"
proof -
  have n: "0 \<le> sint (max_expr_size (example2 2))"
    by (simp add: example2_def)
  have f: "Suc (unat (max_expr_size (example2 2))) = 3" "sint (max_expr_size (example2 2)) = 2"
    by (simp_all add: example2_def)
  from generator_size_bound [OF n] f
  obtain rs where rs: "generate 3 (example2 2) = Some (Inr rs)"
    and b: "\<forall>fuel rs. generate fuel (example2 2) = Some (Inr rs) \<longrightarrow>
              (\<forall>x \<in> set rs. uint (size_expr (snd x)) \<le> 5)"
    by auto
  from b rs have "list_all (\<lambda>x. uint (size_expr (snd x)) \<le> 5) rs"
    unfolding list_all_iff by blast
  with n rs show ?thesis by blast
qed

lemma not_minus_one:
  fixes w :: "32 word"
  assumes "w \<noteq> - 1"
  shows "unat w < 2 ^ 32 - 1"
proof (rule ccontr)
  assume "\<not> unat w < 2 ^ 32 - 1"
  moreover have "unat w < 2 ^ 32"
    using unsigned_less [of w, where 'a = nat] by simp
  moreover have "unat (- 1 :: 32 word) = 4294967295"
    by (simp add: unsigned_minus_1_eq_mask mask_eq_exp_minus_1)
  ultimately have "unat w = unat (- 1 :: 32 word)"
    by simp
  then have "w = - 1"
    by (simp only: word_unat_eq_iff)
  with assms show False by simp
qed

lemma op_legal_iff:
  "op_legal Add x y \<longleftrightarrow> (\<exists>v. dr_add x y = Inr v)"
  "op_legal Sub x y \<longleftrightarrow> (\<exists>v. dr_sub x y = Inr v)"
  "op_legal Div x y \<longleftrightarrow> magnitude y \<noteq> 0"
  "op_legal Pow x y \<longleftrightarrow> (\<exists>v. pow x y = Inr v)"
  by (auto simp: op_legal_def dr_add_def dr_sub_def pow_def same_dimension_def
      quantity_default_def)

lemma legal_evaluate:
  assumes "legal (cache b) b a" "\<not> dirty b"
  shows "\<exists>k x y xv yv v. a = binexpr_t k x y \<and> evaluate x = Inr xv \<and> evaluate y = Inr yv
           \<and> op_legal k xv yv \<and> evaluate a = Inr v"
proof -
  from assms(1) obtain k l lv l' where l: "load l = Inr (lv, l')"
    and a: "a = binexpr_t k b l \<and> op_legal k (cache b) lv
            \<or> a = binexpr_t k l b \<and> op_legal k lv (cache b)"
    unfolding legal_def by blast
  have b: "evaluate b = Inr (cache b)"
    using assms(2) by (simp add: evaluate_def load_clean)
  have el: "evaluate l = Inr lv"
    using l by (simp add: evaluate_def)
  obtain v a' where "load a = Inr (v, a')"
    using legal_load [OF assms] by blast
  then have "evaluate a = Inr v"
    by (simp add: evaluate_def)
  with a b el show ?thesis by blast
qed

text \<open>
  C6. Every candidate that \<open>recurse\<close> builds from a loaded seed \<open>b\<close> applies an operator
  to two operands that evaluate and whose values meet the operator's precondition, so
  the candidate evaluates; the preconditions are those of the operations themselves
  (for a quotient, a divisor other than zero); no run of the search ends in a fault;
  and the search returns unless \<open>max_expr_size\<close> is \<open>-1\<close>.
\<close>

theorem generator_legal:
  "(\<not> dirty b \<and> a \<in> set (candidates cfg (cache b) b) \<longrightarrow>
      (\<exists>k x y xv yv v. a = binexpr_t k x y \<and> evaluate x = Inr xv \<and> evaluate y = Inr yv
         \<and> op_legal k xv yv \<and> evaluate a = Inr v))
   \<and> (op_legal Add p q \<longleftrightarrow> (\<exists>v. dr_add p q = Inr v))
   \<and> (op_legal Sub p q \<longleftrightarrow> (\<exists>v. dr_sub p q = Inr v))
   \<and> (op_legal Div p q \<longleftrightarrow> magnitude q \<noteq> 0)
   \<and> (op_legal Pow p q \<longleftrightarrow> (\<exists>v. pow p q = Inr v))
   \<and> (\<forall>fuel f. generate fuel cfg \<noteq> Some (Inl f))
   \<and> (max_expr_size cfg \<noteq> - 1 \<longrightarrow>
        (\<exists>rs. generate (Suc (unat (max_expr_size cfg))) cfg = Some (Inr rs)))"
  using legal_evaluate [OF candidates_legal, of a cfg b] op_legal_iff [of p q]
    generate_no_fault [of _ cfg] generate_returns [OF not_minus_one, of cfg]
  by simp

theorem generator_legal_witness:
  "\<not> dirty (loaded_lit 2)
   \<and> powexpr_t (litexpr_t (dimreal 2)) (loaded_lit 2)
       \<in> set (candidates (example2 2) (cache (loaded_lit 2)) (loaded_lit 2))
   \<and> evaluate (powexpr_t (litexpr_t (dimreal 2)) (loaded_lit 2)) = Inr (dimreal 4)
   \<and> max_expr_size (example2 2) \<noteq> - 1
   \<and> (\<exists>rs. generate 3 (example2 2) = Some (Inr rs))"
proof -
  have m: "powexpr_t (litexpr_t (dimreal 2)) (loaded_lit 2)
       \<in> set (candidates (example2 2) (cache (loaded_lit 2)) (loaded_lit 2))"
    by code_simp
  have e: "evaluate (powexpr_t (litexpr_t (dimreal 2)) (loaded_lit 2)) = Inr (dimreal 4)"
    by code_simp
  have n: "max_expr_size (example2 2) \<noteq> - 1" "Suc (unat (max_expr_size (example2 2))) = 3"
    by (simp_all add: example2_def)
  have d: "\<not> dirty (loaded_lit 2)"
    by (simp add: loaded_lit_def)
  show ?thesis
    using generator_legal
      [of "loaded_lit 2" "powexpr_t (litexpr_t (dimreal 2)) (loaded_lit 2)" "example2 2"]
      m e n d
    by simp
qed

section \<open>Properties of the selector\<close>

lemma select_one_Nil: "select_one [] a = [a]"
  by (simp add: select_one_def)

lemma select_one_Cons:
  "select_one (b # bs) a =
     (if fst a = fst b then (if size_expr (snd b) > size_expr (snd a) then a # bs else b # bs)
      else b # select_one bs a)"
  by (simp add: select_one_def Let_def)

lemma select_one_errors:
  "fst ` set (select_one sel a) = insert (fst a) (fst ` set sel)"
  by (induction sel) (auto simp: select_one_Nil select_one_Cons)

lemma select_one_subset: "set (select_one sel a) \<subseteq> insert a (set sel)"
  by (induction sel) (auto simp: select_one_Nil select_one_Cons)

lemma select_one_distinct:
  "distinct (map fst sel) \<Longrightarrow> distinct (map fst (select_one sel a))"
proof (induction sel)
  case Nil
  then show ?case by (simp add: select_one_Nil)
next
  case (Cons b bs)
  have "fst b \<notin> fst ` set (select_one bs a)" if "fst a \<noteq> fst b"
    using that Cons.prems by (simp add: select_one_errors)
  with Cons show ?case
    by (auto simp: select_one_Cons)
qed

lemma select_one_new:
  "fst a \<notin> fst ` set sel \<Longrightarrow> select_one sel a = sel @ [a]"
  by (induction sel) (auto simp: select_one_Nil select_one_Cons)

lemma select_one_found:
  "distinct (map fst sel) \<Longrightarrow> b \<in> set sel \<Longrightarrow> fst b = fst a \<Longrightarrow>
   select_one sel a =
     (if size_expr (snd b) > size_expr (snd a) then map (\<lambda>x. if x = b then a else x) sel else sel)"
proof (induction sel)
  case Nil
  then show ?case by simp
next
  case (Cons c cs)
  show ?case
  proof (cases "c = b")
    case True
    have "map (\<lambda>x. if x = b then a else x) cs = cs"
      using Cons.prems(1) True by (intro map_idI) (auto simp: rev_image_eqI)
    with True Cons.prems show ?thesis
      by (simp add: select_one_Cons)
  next
    case False
    then have b: "b \<in> set cs" using Cons.prems by simp
    then have "fst c \<noteq> fst a"
      using Cons.prems by (auto simp: rev_image_eqI)
    then show ?thesis
      using Cons b False by (simp add: select_one_Cons)
  qed
qed

lemma select_one_covers_new: "covers (select_one sel a) a"
  by (induction sel) (auto simp: select_one_Nil select_one_Cons covers_def)

lemma select_one_covers_old: "covers sel x \<Longrightarrow> covers (select_one sel a) x"
proof (induction sel)
  case Nil
  then show ?case by (simp add: covers_def)
next
  case (Cons b bs)
  from Cons.prems obtain y where y: "y \<in> set (b # bs)" "fst y = fst x"
    "size_expr (snd y) \<le> size_expr (snd x)"
    unfolding covers_def by blast
  show ?case
  proof (cases "fst a = fst b")
    case same: True
    show ?thesis
    proof (cases "size_expr (snd b) > size_expr (snd a)")
      case False
      with same have "select_one (b # bs) a = b # bs"
        by (simp add: select_one_Cons)
      with Cons.prems show ?thesis by simp
    next
      case True
      with same have r: "select_one (b # bs) a = a # bs"
        by (simp add: select_one_Cons)
      show ?thesis
      proof (cases "y = b")
        case True
        with y same \<open>size_expr (snd b) > size_expr (snd a)\<close>
        have "fst a = fst x" "size_expr (snd a) \<le> size_expr (snd x)"
          by auto
        then show ?thesis
          unfolding covers_def r by auto
      next
        case False
        with y have "y \<in> set (a # bs)" by simp
        with y show ?thesis
          unfolding covers_def r by blast
      qed
    qed
  next
    case False
    then have r: "select_one (b # bs) a = b # select_one bs a"
      by (simp add: select_one_Cons)
    show ?thesis
    proof (cases "y = b")
      case True
      with y show ?thesis
        unfolding covers_def r by auto
    next
      case False
      with y have "covers bs x"
        unfolding covers_def by auto
      then have "covers (select_one bs a) x"
        by (rule Cons.IH)
      then show ?thesis
        unfolding covers_def r by auto
    qed
  qed
qed

lemma foldl_select_one:
  "distinct (map fst sel) \<Longrightarrow>
     distinct (map fst (foldl select_one sel all))
   \<and> fst ` set (foldl select_one sel all) = fst ` set sel \<union> fst ` set all
   \<and> set (foldl select_one sel all) \<subseteq> set sel \<union> set all
   \<and> (\<forall>x. covers sel x \<longrightarrow> covers (foldl select_one sel all) x)
   \<and> (\<forall>x \<in> set all. covers (foldl select_one sel all) x)"
proof (induction all arbitrary: sel)
  case Nil
  then show ?case by simp
next
  case (Cons a all)
  have d: "distinct (map fst (select_one sel a))"
    using Cons.prems by (rule select_one_distinct)
  note IH = Cons.IH [OF d]
  have "\<forall>x. covers sel x \<longrightarrow> covers (foldl select_one (select_one sel a) all) x"
    using IH select_one_covers_old [of sel _ a] by blast
  moreover have "\<forall>x \<in> set (a # all). covers (foldl select_one (select_one sel a) all) x"
  proof
    fix x
    assume "x \<in> set (a # all)"
    then consider "x = a" | "x \<in> set all" by auto
    then show "covers (foldl select_one (select_one sel a) all) x"
    proof cases
      case 1
      then show ?thesis
        using IH select_one_covers_new [of sel a] by blast
    next
      case 2
      then show ?thesis
        using IH by blast
    qed
  qed
  moreover have "set (foldl select_one (select_one sel a) all) \<subseteq> set sel \<union> set (a # all)"
    using IH select_one_subset [of sel a] by auto
  moreover have "fst ` set (foldl select_one (select_one sel a) all)
                   = fst ` set sel \<union> fst ` set (a # all)"
    using IH by (auto simp: select_one_errors)
  ultimately show ?case using IH by simp
qed

lemma select_all_props:
  "distinct (map fst (select_all all))"
  "fst ` set (select_all all) = fst ` set all"
  "set (select_all all) \<subseteq> set all"
  "x \<in> set all \<Longrightarrow> covers (select_all all) x"
  using foldl_select_one [of "[]" all] by (simp_all add: select_all_def)

lemma ranked_sorted: "sorted (map fst (ranked all))"
  unfolding ranked_def by (simp add: take_map [symmetric] sorted_wrt_take)

lemma ranked_length: "length (ranked all) = min 30 (card (fst ` set all))"
proof -
  have "length (select_all all) = card (fst ` set all)"
    using distinct_card [OF select_all_props(1), of all]
    by (simp add: select_all_props(2))
  then show ?thesis by (simp add: ranked_def)
qed

lemma ranked_strict: "sorted_wrt (<) (map fst (ranked all))"
proof -
  have "distinct (map fst (sort_key fst (select_all all)))"
    using select_all_props(1) [of all]
    by (simp add: distinct_map)
  then have "distinct (map fst (ranked all))"
    unfolding ranked_def by (simp add: take_map [symmetric] distinct_take)
  with ranked_sorted show ?thesis
    by (simp add: strict_sorted_iff)
qed

text \<open>
  C2. A result whose error is not among the selected ones is appended; one whose error
  a selected entry has replaces that entry when its expression is smaller, and is
  dropped otherwise. So the selected errors are pairwise different and are the errors
  of the results, every selected entry is a result, and every result is covered by a
  selected entry of the same error and no larger size. The output is the first 30
  entries of the selection sorted by error, in strictly ascending order.
\<close>

theorem selector_spec:
  "(fst a \<notin> fst ` set selected \<longrightarrow> select_one selected a = selected @ [a])
   \<and> (distinct (map fst selected) \<and> b \<in> set selected \<and> fst b = fst a \<longrightarrow>
        select_one selected a =
          (if size_expr (snd b) > size_expr (snd a)
           then map (\<lambda>x. if x = b then a else x) selected else selected))
   \<and> select_all all = foldl select_one [] all
   \<and> distinct (map fst (select_all all))
   \<and> fst ` set (select_all all) = fst ` set all
   \<and> set (select_all all) \<subseteq> set all
   \<and> (\<forall>x \<in> set all. \<exists>y \<in> set (select_all all).
          fst y = fst x \<and> size_expr (snd y) \<le> size_expr (snd x))
   \<and> ranked all = take 30 (sort_key fst (select_all all))
   \<and> sorted_wrt (<) (map fst (ranked all))
   \<and> length (ranked all) = min 30 (card (fst ` set all))"
  using select_one_new [of a selected] select_one_found [of selected b a]
    select_all_props(1-3) [of all] select_all_props(4) [of _ all, unfolded covers_def]
    ranked_strict [of all] ranked_length [of all]
  by (simp add: select_all_def ranked_def)

theorem selector_spec_witness:
  "select_one [(1, addexpr_t (loaded_lit 1) (loaded_lit 0))] (1, loaded_lit 1) = [(1, loaded_lit 1)]
   \<and> select_one [(1, loaded_lit 1)] (2, loaded_lit 2) = [(1, loaded_lit 1), (2, loaded_lit 2)]
   \<and> ranked [(2, loaded_lit 2), (1, addexpr_t (loaded_lit 1) (loaded_lit 0)), (1, loaded_lit 1)]
       = [(1, loaded_lit 1), (2, loaded_lit 2)]"
proof -
  have s: "size_expr (addexpr_t (loaded_lit 1) (loaded_lit 0)) = 3" "size_expr (loaded_lit 1) = 1"
    "size_expr (loaded_lit 2) = 1"
    by (simp_all add: addexpr_t_def binexpr_t_def loaded_lit_def)
  have "select_one [(1, addexpr_t (loaded_lit 1) (loaded_lit 0))] (1, loaded_lit 1)
          = [(1, loaded_lit 1)]"
    using selector_spec [of "(1, loaded_lit 1)" "[(1, addexpr_t (loaded_lit 1) (loaded_lit 0))]"
        "(1, addexpr_t (loaded_lit 1) (loaded_lit 0))"] s
    by (simp add: word_less_nat_alt)
  moreover have "select_one [(1, loaded_lit 1)] (2, loaded_lit 2)
          = [(1, loaded_lit 1), (2, loaded_lit 2)]"
    using selector_spec [of "(2, loaded_lit 2)" "[(1, loaded_lit 1)]"]
    by simp
  moreover have "ranked [(2, loaded_lit 2), (1, addexpr_t (loaded_lit 1) (loaded_lit 0)),
                    (1, loaded_lit 1)]
       = [(1, loaded_lit 1), (2, loaded_lit 2)]"
    using s by (simp add: ranked_def select_all_def select_one_def word_less_nat_alt)
  ultimately show ?thesis by simp
qed

section \<open>The end-to-end example\<close>

text \<open>
  C1 as stated fails: with \<open>max_expr_size = 1\<close> the search records the four literals and
  nothing else, since \<open>recurse\<close> is entered with \<open>cursize = 2\<close>.
\<close>

theorem example2_size_one_counterexample:
  "generate 2 (example2 1)
     = Some (Inr [(3, loaded_lit 1), (2, loaded_lit 2), (1, loaded_lit 3), (0, loaded_lit 4)])"
  by code_simp

lemma example2_size_two_run:
  "case generate 3 (example2 2) of
     Some (Inr rs) \<Rightarrow>
       (0, Expr Pow [loaded_lit 2, loaded_lit 2] [] False (dimreal 4)) \<in> set rs
       \<and> (0, Expr Pow [loaded_lit 2, loaded_lit 2] [] False (dimreal 4)) \<notin> set (ranked rs)
       \<and> hd (ranked rs) = (0, loaded_lit 4)
       \<and> list_all (\<lambda>x. 0 < fst x) (tl (ranked rs))
   | _ \<Rightarrow> False"
  by code_simp

text \<open>
  C1, as the code has it. With \<open>max_expr_size = 2\<close> the results include \<open>(2 ^ 2)\<close> with
  error zero. The selector keeps the smallest expression of each error: for the error
  zero that is the literal \<open>4\<close>, which comes first, before the entries of positive
  error, and \<open>(2 ^ 2)\<close> is not in the output.
\<close>

theorem example2_size_two:
  "\<exists>rs. generate 3 (example2 2) = Some (Inr rs)
     \<and> (0, Expr Pow [loaded_lit 2, loaded_lit 2] [] False (dimreal 4)) \<in> set rs
     \<and> disp to_str (Expr Pow [loaded_lit 2, loaded_lit 2] [] False (dimreal 4))
         = Inr (''('' @ to_str (dimreal 2) @ '' ^ '' @ to_str (dimreal 2) @ '')'')
     \<and> (0, Expr Pow [loaded_lit 2, loaded_lit 2] [] False (dimreal 4)) \<notin> set (ranked rs)
     \<and> hd (ranked rs) = (0, loaded_lit 4)
     \<and> list_all (\<lambda>x. 0 < fst x) (tl (ranked rs))"
proof -
  have d: "disp to_str (Expr Pow [loaded_lit 2, loaded_lit 2] [] False (dimreal 4))
         = Inr (''('' @ to_str (dimreal 2) @ '' ^ '' @ to_str (dimreal 2) @ '')'')"
    by (simp add: loaded_lit_def)
  show ?thesis
  proof (cases "generate 3 (example2 2)")
    case None
    with example2_size_two_run show ?thesis by simp
  next
    case (Some r)
    show ?thesis
    proof (cases r)
      case (Inl f)
      with Some example2_size_two_run show ?thesis by simp
    next
      case (Inr rs)
      with Some example2_size_two_run d show ?thesis
        by (intro exI [of _ rs]) (simp del: disp.simps)
    qed
  qed
qed

section \<open>Properties of the configuration\<close>













end
